theory Spec2Isabelle
  imports
    Main
    "HOL-Library.Char_ord"
    "HOL-Library.List_Lexorder"
    "HOL-Library.Multiset"
begin

section \<open>Python values shared by the views\<close>

text \<open>
  The module \<^verbatim>\<open>invenio_rdm_records/theme/views.py\<close> defines template filters and one
  download view. Strings are lists of characters; a character stands for a code point
  below 256, and strings are ordered as Python orders \<^verbatim>\<open>str\<close>: code point by code
  point, a proper prefix first. A dictionary whose values are strings is an association
  list; \<^verbatim>\<open>d[k]\<close> and \<^verbatim>\<open>d.get(k)\<close> read it with \<open>map_of\<close>.
\<close>

type_synonym dict = "(string \<times> string) list"

datatype py_exception = KeyError | IndexError | TypeError | ValueError | RuntimeError

text \<open>\<^verbatim>\<open>d[k]\<close>: the value, or KeyError when the field is missing.\<close>

definition getitem :: "dict \<Rightarrow> string \<Rightarrow> py_exception + string" where
  "getitem d k = (case map_of d k of None \<Rightarrow> Inl KeyError | Some v \<Rightarrow> Inr v)"

text \<open>\<^verbatim>\<open>str.lower()\<close> on code points below 256: A-Z and the Latin-1 capitals
  (192-222 without the multiplication sign 215) move up by 32.\<close>

definition lower_char :: "char \<Rightarrow> char" where
  "lower_char c =
     (let n = (of_char c :: nat)
      in if (65 \<le> n \<and> n \<le> 90) \<or> (192 \<le> n \<and> n \<le> 222 \<and> n \<noteq> 215)
         then char_of (n + 32) else c)"

definition lower :: "string \<Rightarrow> string" where
  "lower s = map lower_char s"

section \<open>os.path.splitext\<close>

text \<open>
  \<^verbatim>\<open>str.rfind(c)\<close>: the index of the last occurrence of a character, or -1.
\<close>

definition rfind :: "string \<Rightarrow> char \<Rightarrow> int" where
  "rfind p c =
     (case filter (\<lambda>i. p ! i = c) (rev [0..<length p]) of
        [] \<Rightarrow> - 1
      | i # _ \<Rightarrow> int i)"

text \<open>
  The loop of \<^verbatim>\<open>genericpath._splitext\<close> that skips the leading dots of the last path
  component: it answers whether some character in \<open>[filenameIndex, dotIndex)\<close> is not a
  dot, which is when the function splits at \<open>dotIndex\<close>.
  \<^verbatim>\<open>
      while filenameIndex < dotIndex:
          if p[filenameIndex:filenameIndex+1] != extsep:
              return p[:dotIndex], p[dotIndex:]
          filenameIndex += 1
  \<close>
\<close>

function skip_leading_dots :: "string \<Rightarrow> int \<Rightarrow> int \<Rightarrow> bool" where
  "skip_leading_dots p filenameIndex dotIndex =
     (if filenameIndex < dotIndex
      then (if take 1 (drop (nat filenameIndex) p) \<noteq> ''.'' then True
            else skip_leading_dots p (filenameIndex + 1) dotIndex)
      else False)"
  by pat_completeness auto
termination
  by (relation "measure (\<lambda>(p, filenameIndex, dotIndex). nat (dotIndex - filenameIndex))") auto

declare skip_leading_dots.simps [simp del]

text \<open>
  \<^verbatim>\<open>os.path.splitext\<close> of posixpath (separator \<^verbatim>\<open>/\<close>, no alternative separator,
  extension separator \<^verbatim>\<open>.\<close>):
  \<^verbatim>\<open>
      sepIndex = p.rfind(sep)
      dotIndex = p.rfind(extsep)
      if dotIndex > sepIndex:
          filenameIndex = sepIndex + 1
          while ...
      return p, p[:0]
  \<close>
\<close>

definition splitext :: "string \<Rightarrow> string \<times> string" where
  "splitext p =
     (let sepIndex = rfind p (CHR ''/'');
          dotIndex = rfind p (CHR ''.'')
      in if dotIndex > sepIndex \<and> skip_leading_dots p (sepIndex + 1) dotIndex
         then (take (nat dotIndex) p, drop (nat dotIndex) p)
         else (p, []))"

section \<open>select_preview_file\<close>

text \<open>
  A file descriptor is a dictionary; the selector reads only its \<^verbatim>\<open>key\<close> field.
  \<^verbatim>\<open>splitext(f['key'])[1][1:].lower()\<close> is the file type handed to the previewer's
  predicate.
\<close>

type_synonym file_desc = dict

definition file_type_of :: "string \<Rightarrow> string" where
  "file_type_of k = lower (drop 1 (snd (splitext k)))"

text \<open>
  \<^verbatim>\<open>sorted(files, key=itemgetter('key'))\<close>: the key function is applied to every element
  before anything is compared, so one descriptor without \<^verbatim>\<open>key\<close> raises KeyError; the
  sort is stable.
\<close>

definition sort_field :: "file_desc \<Rightarrow> string" where
  "sort_field f = the (map_of f ''key'')"

definition sorted_by_key :: "file_desc list \<Rightarrow> py_exception + file_desc list" where
  "sorted_by_key files =
     (if \<forall>f \<in> set files. map_of f ''key'' \<noteq> None
      then Inr (sort_key sort_field files)
      else Inl KeyError)"

text \<open>
  The body of the \<^verbatim>\<open>for\<close> loop, threading \<^verbatim>\<open>selected\<close>. The result is the value of
  \<^verbatim>\<open>selected\<close> when the loop is left, with the exception that left it, if any.
  \<^verbatim>\<open>
      file_type = splitext(f['key'])[1][1:].lower()
      if is_previewable(file_type):
          if selected is None:
              selected = f
          elif f['key'] == default_preview:
              selected = f
  \<close>
\<close>

fun scan_files ::
  "(string \<Rightarrow> bool) \<Rightarrow> string option \<Rightarrow> file_desc list \<Rightarrow> file_desc option
     \<Rightarrow> file_desc option \<times> py_exception option" where
  "scan_files is_previewable default_preview [] selected = (selected, None)"
| "scan_files is_previewable default_preview (f # fs) selected =
     (case getitem f ''key'' of
        Inl e \<Rightarrow> (selected, Some e)
      | Inr k \<Rightarrow>
          if is_previewable (file_type_of k)
          then (if selected = None
                then scan_files is_previewable default_preview fs (Some f)
                else if Some k = default_preview
                then scan_files is_previewable default_preview fs (Some f)
                else scan_files is_previewable default_preview fs selected)
          else scan_files is_previewable default_preview fs selected)"

text \<open>
  \<^verbatim>\<open>select_preview_file(files, default_preview=None)\<close>. \<open>files\<close> is \<open>None\<close> for Python's
  \<^verbatim>\<open>None\<close> (\<^verbatim>\<open>files or []\<close>). KeyError is caught and \<^verbatim>\<open>selected\<close> returned as it stands;
  any other exception would propagate.
\<close>

definition select_preview_file ::
  "(string \<Rightarrow> bool) \<Rightarrow> file_desc list option \<Rightarrow> string option
     \<Rightarrow> py_exception + file_desc option" where
  "select_preview_file is_previewable files default_preview =
     (let selected = None in
      case sorted_by_key (case files of None \<Rightarrow> [] | Some fs \<Rightarrow> fs) of
        Inl e \<Rightarrow> (if e = KeyError then Inr selected else Inl e)
      | Inr sorted_files \<Rightarrow>
          (case scan_files is_previewable default_preview sorted_files selected of
             (selected', None) \<Rightarrow> Inr selected'
           | (selected', Some e) \<Rightarrow> (if e = KeyError then Inr selected' else Inl e)))"

text \<open>
  The extension as the specification words it: the substring after the last dot of the
  key, empty when the key has no dot; lowercased.
\<close>

definition spec_extension :: "string \<Rightarrow> string" where
  "spec_extension k =
     (if CHR ''.'' \<in> set k then rev (takeWhile (\<lambda>c. c \<noteq> CHR ''.'') (rev k)) else [])"

definition spec_file_type :: "string \<Rightarrow> string" where
  "spec_file_type k = lower (spec_extension k)"

text \<open>A previewer that renders PNG images only.\<close>

definition png_only :: "string \<Rightarrow> bool" where
  "png_only file_type = (file_type = ''png'')"

text \<open>A previewer that renders PNG images and plain text.\<close>

definition png_or_txt :: "string \<Rightarrow> bool" where
  "png_or_txt file_type = (file_type = ''png'' \<or> file_type = ''txt'')"

section \<open>File entry normalizers\<close>

text \<open>
  The stored object version (\<^verbatim>\<open>invenio_files_rest\<close>), with the attributes the views read
  and the checksum of the stored bytes; \<^verbatim>\<open>FileObject(obj, data)\<close> of
  \<^verbatim>\<open>invenio_records_files\<close>, whose \<^verbatim>\<open>get(k)\<close> reads the data mapping and gives
  \<^verbatim>\<open>None\<close> for a missing field; a file of a record, whose metadata may be absent; and a
  record, of which only the file collection is read. The collection is a dictionary from
  file key to file, kept as an association list in iteration order.
\<close>

record ObjectVersion =
  bucket :: string
  bucket_id :: string
  version_id :: string
  file_checksum :: string

record FileObject =
  obj :: ObjectVersion
  data :: dict

record record_file =
  object_version :: ObjectVersion
  metadata :: "dict option"

record rdm_record =
  files :: "(string \<times> record_file) list"

text \<open>
  \<^verbatim>\<open>make_files_preview_compatible(files)\<close>: the loop over the keys of the collection,
  appending \<^verbatim>\<open>FileObject(obj=files[file].object_version, data={}).dumps()\<close>. The method
  \<^verbatim>\<open>dumps\<close> belongs to \<^verbatim>\<open>invenio_records_files\<close> and is a parameter.
\<close>

fun preview_compatible_loop ::
  "(FileObject \<Rightarrow> 'd) \<Rightarrow> (string \<times> record_file) list \<Rightarrow> string list \<Rightarrow> 'd list
     \<Rightarrow> py_exception + 'd list" where
  "preview_compatible_loop dumps fs [] file_objects = Inr file_objects"
| "preview_compatible_loop dumps fs (file # rest) file_objects =
     (case map_of fs file of
        None \<Rightarrow> Inl KeyError
      | Some rf \<Rightarrow>
          preview_compatible_loop dumps fs rest
            (file_objects @ [dumps \<lparr>obj = object_version rf, data = []\<rparr>]))"

definition make_files_preview_compatible ::
  "(FileObject \<Rightarrow> 'd) \<Rightarrow> (string \<times> record_file) list \<Rightarrow> py_exception + 'd list" where
  "make_files_preview_compatible dumps fs = preview_compatible_loop dumps fs (map fst fs) []"

text \<open>\<^verbatim>\<open>f.metadata or {}\<close>: absent or empty metadata gives the empty dictionary.\<close>

definition metadata_or_empty :: "dict option \<Rightarrow> dict" where
  "metadata_or_empty md = (case md of None \<Rightarrow> [] | Some m \<Rightarrow> if m = [] then [] else m)"

text \<open>\<^verbatim>\<open>to_previewer_files(record)\<close>: one \<^verbatim>\<open>FileObject\<close> for each of
  \<^verbatim>\<open>record.files.values()\<close>.\<close>

definition to_previewer_files :: "rdm_record \<Rightarrow> FileObject list" where
  "to_previewer_files record =
     map (\<lambda>f. \<lparr>obj = object_version f, data = metadata_or_empty (metadata f)\<rparr>)
       (map snd (files record))"

text \<open>A file entry that carries metadata, and its object version.\<close>

definition sample_object :: ObjectVersion where
  "sample_object =
     \<lparr>bucket = ''b1'', bucket_id = ''b1'', version_id = ''v1'', file_checksum = ''md5:aa''\<rparr>"

definition sample_files :: "(string \<times> record_file) list" where
  "sample_files =
     [(''a.png'', \<lparr>object_version = sample_object, metadata = Some [(''type'', ''image'')]\<rparr>)]"

section \<open>can_list_files\<close>

text \<open>
  \<^verbatim>\<open>PermissionPolicy(action='read_files', record=record).can()\<close>, the policy of
  \<^verbatim>\<open>invenio_records_permissions\<close> being a parameter.
\<close>

definition can_list_files :: "(string \<Rightarrow> 'r \<Rightarrow> bool) \<Rightarrow> 'r \<Rightarrow> bool" where
  "can_list_files permission_policy record = permission_policy ''read_files'' record"

text \<open>A policy that grants nothing.\<close>

definition deny_all :: "string \<Rightarrow> 'r \<Rightarrow> bool" where
  "deny_all action record = False"

section \<open>pid_url\<close>









section \<open>file_download_ui\<close>

record PersistentIdentifier =
  pid_type :: string
  pid_value :: string

text \<open>The arguments of \<^verbatim>\<open>ObjectResource.send_object\<close>.\<close>

record send_object_args =
  send_bucket :: string
  send_obj :: ObjectVersion
  expected_chksum :: "string option"
  logger_data :: dict
  as_attachment :: bool

text \<open>\<^verbatim>\<open>abort(code)\<close> raises the HTTP exception of that status.\<close>

datatype http_exception = HTTPException nat

text \<open>
  The calls the view makes to its collaborators, in order.
  \<^verbatim>\<open>ObjectResource.check_object_permission(obj)\<close> is commented out in the source, so the
  view never makes that call.
\<close>

datatype view_call =
    RecordFileFactory "string option"
  | CheckObjectPermission ObjectVersion
  | SendObject send_object_args

text \<open>
  \<^verbatim>\<open>file_download_ui(pid, record, _record_file_factory=None, **kwargs)\<close>. The default
  factory \<^verbatim>\<open>previewer_record_file_factory\<close>, \<^verbatim>\<open>ObjectResource.send_object\<close> and the
  query arguments \<^verbatim>\<open>request.args\<close> are parameters; \<open>record_file_factory\<close> is the
  argument \<^verbatim>\<open>_record_file_factory\<close>, \<open>None\<close> when it is not given. A factory returns a
  \<^verbatim>\<open>FileObject\<close> or \<^verbatim>\<open>None\<close>.
\<close>

definition file_download_ui ::
  "(PersistentIdentifier \<Rightarrow> 'r \<Rightarrow> string option \<Rightarrow> FileObject option)
     \<Rightarrow> (send_object_args \<Rightarrow> 'resp)
     \<Rightarrow> dict
     \<Rightarrow> PersistentIdentifier \<Rightarrow> 'r
     \<Rightarrow> (PersistentIdentifier \<Rightarrow> 'r \<Rightarrow> string option \<Rightarrow> FileObject option) option
     \<Rightarrow> dict
     \<Rightarrow> view_call list \<times> (http_exception + 'resp)" where
  "file_download_ui previewer_record_file_factory send_object request_args
       pid record record_file_factory kwargs =
     (let factory = (case record_file_factory of
                       None \<Rightarrow> previewer_record_file_factory
                     | Some f \<Rightarrow> f);
          filename = map_of kwargs ''filename''
      in case factory pid record filename of
           None \<Rightarrow> ([RecordFileFactory filename], Inl (HTTPException 404))
         | Some fileobj \<Rightarrow>
             (let ov = obj fileobj;
                  args = \<lparr>send_bucket = bucket ov,
                          send_obj = ov,
                          expected_chksum = map_of (data fileobj) ''checksum'',
                          logger_data = [(''bucket_id'', bucket_id ov),
                                         (''pid_type'', pid_type pid),
                                         (''pid_value'', pid_value pid)],
                          as_attachment = (''download'' \<in> set (map fst request_args))\<rparr>
              in ([RecordFileFactory filename, SendObject args], Inr (send_object args))))"

text \<open>
  Modelled from the spec: \<^verbatim>\<open>ObjectResource.send_object\<close> of \<^verbatim>\<open>invenio_files_rest\<close>,
  the streaming responder, is outside this module. The specification says that it
  compares the checksum of the stored object against the expected checksum and fails
  with an integrity fault on a mismatch, and that it otherwise answers 200 with the
  body of the object, as an attachment when \<^verbatim>\<open>as_attachment\<close> is set and inline
  otherwise.
\<close>

datatype disposition = Attachment | Inline

datatype response = IntegrityFault | Ok200 disposition ObjectVersion

definition spec_send_object :: "send_object_args \<Rightarrow> response" where
  "spec_send_object args =
     (if expected_chksum args \<noteq> Some (file_checksum (send_obj args))
      then IntegrityFault
      else Ok200 (if as_attachment args then Attachment else Inline) (send_obj args))"

text \<open>
  A factory that knows one file, \<^verbatim>\<open>a.png\<close>, and takes it when no filename is given; a
  file entry whose recorded checksum is not that of the stored bytes; a persistent
  identifier.
\<close>

definition sample_fileobj :: FileObject where
  "sample_fileobj = \<lparr>obj = sample_object, data = [(''key'', ''a.png''), (''checksum'', ''md5:aa'')]\<rparr>"

definition corrupt_fileobj :: FileObject where
  "corrupt_fileobj = \<lparr>obj = sample_object, data = [(''key'', ''a.png''), (''checksum'', ''md5:bb'')]\<rparr>"

definition sample_factory ::
  "PersistentIdentifier \<Rightarrow> unit \<Rightarrow> string option \<Rightarrow> FileObject option" where
  "sample_factory pid record filename =
     (if filename = None \<or> filename = Some ''a.png'' then Some sample_fileobj else None)"

definition corrupt_factory ::
  "PersistentIdentifier \<Rightarrow> unit \<Rightarrow> string option \<Rightarrow> FileObject option" where
  "corrupt_factory pid record filename =
     (if filename = None \<or> filename = Some ''a.png'' then Some corrupt_fileobj else None)"

definition sample_pid :: PersistentIdentifier where
  "sample_pid = \<lparr>pid_type = ''recid'', pid_value = ''12345''\<rparr>"

section \<open>The selector: auxiliary facts\<close>


lemma rfind_absent: "c \<notin> set p \<Longrightarrow> rfind p c = - 1"
proof -
  assume a: "c \<notin> set p"
  have "filter (\<lambda>i. p ! i = c) (rev [0..<length p]) = []"
    using a by (auto simp: filter_empty_conv)
  then show ?thesis by (simp add: rfind_def)
qed

lemma rfind_last: 
  assumes "c \<notin> set b"
  shows "rfind (a @ c # b) c = int (length a)"
proof -
  let ?p = "a @ c # b"
  have split: "[0..<length ?p] = [0..<length a] @ [length a] @ [Suc (length a)..<length ?p]"
    by (metis (no_types, lifting) upt_add_eq_append upt_rec append_Cons append_Nil length_append
         less_add_Suc1 list.size(4) zero_le add_Suc_right)
  have tail: "filter (\<lambda>i. ?p ! i = c) [Suc (length a)..<length ?p] = []"
  proof -
    have "?p ! i \<noteq> c" if "Suc (length a) \<le> i" "i < length ?p" for i
    proof -
      have "?p ! i = b ! (i - Suc (length a))"
        using that by (simp add: nth_append nth_Cons')
      moreover have "i - Suc (length a) < length b" using that by simp
      ultimately show ?thesis using assms by (metis nth_mem)
    qed
    then have "\<forall>i \<in> set [Suc (length a)..<length ?p]. \<not> (?p ! i = c)"
      by (metis atLeastLessThan_iff set_upt)
    then show ?thesis by (rule filter_False)
  qed
  have "filter (\<lambda>i. ?p ! i = c) (rev [0..<length ?p])
          = length a # rev (filter (\<lambda>i. ?p ! i = c) [0..<length a])"
    unfolding rev_filter [symmetric] split using tail by simp
  then show ?thesis by (simp add: rfind_def)
qed

lemma spec_extension_last:
  assumes "CHR ''.'' \<notin> set b"
  shows "spec_extension (a @ CHR ''.'' # b) = b"
proof -
  have "takeWhile (\<lambda>c. c \<noteq> CHR ''.'') (rev b @ CHR ''.'' # rev a) = rev b"
    using assms by (auto simp: takeWhile_tail takeWhile_eq_all_conv)
  then show ?thesis by (simp add: spec_extension_def)
qed

lemma file_type_of_plain:
  assumes nosep: "CHR ''/'' \<notin> set k" and nolead: "k = [] \<or> hd k \<noteq> CHR ''.''"
  shows "file_type_of k = spec_file_type k"
proof (cases "CHR ''.'' \<in> set k")
  case False
  then show ?thesis
    using nosep by (simp add: file_type_of_def spec_file_type_def splitext_def
        rfind_absent spec_extension_def)
next
  case True
  then obtain a b where k: "k = a @ CHR ''.'' # b" and b: "CHR ''.'' \<notin> set b"
    by (meson split_list_last)
  have a: "a \<noteq> []" "hd a \<noteq> CHR ''.''" using nolead k by (cases a; auto)+
  have dot: "rfind k (CHR ''.'') = int (length a)" using k b rfind_last by simp
  have sep: "rfind k (CHR ''/'') = - 1" using nosep by (rule rfind_absent)
  have "take 1 (drop (nat 0) k) \<noteq> ''.''" using a k by (cases a) auto
  then have skip: "skip_leading_dots k 0 (int (length a))"
    using a by (subst skip_leading_dots.simps) simp
  have "splitext k = (a, CHR ''.'' # b)"
    using dot sep skip k by (simp add: splitext_def)
  then show ?thesis
    using b k by (simp add: file_type_of_def spec_file_type_def spec_extension_last)
qed

lemma scan_files_no_exception:
  "\<forall>f \<in> set fs. map_of f ''key'' \<noteq> None \<Longrightarrow> snd (scan_files P d fs sel) = None"
  by (induction fs arbitrary: sel) (auto simp: getitem_def)

lemma scan_files_no_default:
  "\<forall>f \<in> set fs. map_of f ''key'' \<noteq> None \<Longrightarrow>
   fst (scan_files P None fs sel) =
     (case sel of Some s \<Rightarrow> Some s
      | None \<Rightarrow> find (\<lambda>f. P (file_type_of (sort_field f))) fs)"
  by (induction fs arbitrary: sel) (auto simp: getitem_def sort_field_def split: option.splits)

lemma scan_files_keeps_default:
  "\<forall>f \<in> set fs. map_of f ''key'' \<noteq> None \<Longrightarrow> map_of g ''key'' = Some k \<Longrightarrow>
   \<exists>g'. fst (scan_files P (Some k) fs (Some g)) = Some g' \<and> map_of g' ''key'' = Some k
        \<and> (g' = g \<or> g' \<in> set fs)"
proof (induction fs arbitrary: g)
  case Nil
  then show ?case by simp
next
  case (Cons f fs)
  then show ?case by (fastforce simp: getitem_def)
qed

lemma scan_files_finds_default:
  "\<forall>f \<in> set fs. map_of f ''key'' \<noteq> None \<Longrightarrow> 
   \<exists>f \<in> set fs. map_of f ''key'' = Some k \<Longrightarrow> P (file_type_of k) \<Longrightarrow>
   \<exists>g \<in> set fs. fst (scan_files P (Some k) fs sel) = Some g \<and> map_of g ''key'' = Some k"
proof (induction fs arbitrary: sel)
  case Nil
  then show ?case by simp
next
  case (Cons f fs)
  show ?case
  proof (cases "map_of f ''key'' = Some k")
    case True
    have "fst (scan_files P (Some k) (f # fs) sel) = fst (scan_files P (Some k) fs (Some f))"
      using True Cons.prems(3) by (simp add: getitem_def)
    moreover have "\<exists>g'. fst (scan_files P (Some k) fs (Some f)) = Some g' \<and> map_of g' ''key'' = Some k
        \<and> (g' = f \<or> g' \<in> set fs)"
      using scan_files_keeps_default [of fs f k P] True Cons.prems(1) by simp
    ultimately show ?thesis by auto
  next
    case False
    then have ex: "\<exists>f \<in> set fs. map_of f ''key'' = Some k" using Cons.prems(2) by auto
    have all: "\<forall>f \<in> set fs. map_of f ''key'' \<noteq> None" using Cons.prems(1) by simp
    obtain k' where k': "map_of f ''key'' = Some k'" "k' \<noteq> k" using False Cons.prems(1) by auto
    have "\<exists>sel'. fst (scan_files P (Some k) (f # fs) sel) = fst (scan_files P (Some k) fs sel')"
      using k' by (auto simp: getitem_def)
    then obtain sel' where "fst (scan_files P (Some k) (f # fs) sel) = fst (scan_files P (Some k) fs sel')" ..
    then show ?thesis using Cons.IH [OF all ex Cons.prems(3), of sel'] by auto
  qed
qed

lemma select_preview_file_keys:
  assumes "\<forall>f \<in> set fs. map_of f ''key'' \<noteq> None"
  shows "select_preview_file P (Some fs) d =
           Inr (fst (scan_files P d (sort_key sort_field fs) None))"
proof -
  have "snd (scan_files P d (sort_key sort_field fs) None) = None"
    using assms by (intro scan_files_no_exception) simp
  then obtain s where "scan_files P d (sort_key sort_field fs) None = (s, None)"
    by (metis prod.collapse)
  then show ?thesis
    using assms by (simp add: select_preview_file_def sorted_by_key_def)
qed

lemma find_sorted_least:
  "sorted (map f xs) \<Longrightarrow> find Q xs = Some g \<Longrightarrow> h \<in> set xs \<Longrightarrow> Q h \<Longrightarrow> f g \<le> f h"
  by (induction xs) (auto split: if_splits)

lemma sort_key_permutation:
  assumes m: "mset xs = mset ys" and d: "distinct (map f xs)"
  shows "sort_key f xs = sort_key f ys"
proof -
  have s: "set xs = set ys" using m by (rule mset_eq_setD)
  have inj: "inj_on f (set xs)" using d by (simp add: distinct_map)
  have mm: "mset (map f xs) = mset (map f ys)" using m by (metis mset_map)
  have dy: "distinct (map f ys)" using mm d by (metis mset_eq_imp_distinct_iff)
  have "map f (sort_key f xs) = map f (sort_key f ys)"
  proof (rule sorted_distinct_set_unique)
    show "sorted (map f (sort_key f xs))" by simp
    show "sorted (map f (sort_key f ys))" by simp
    show "distinct (map f (sort_key f xs))" using d by (simp add: distinct_map)
    show "distinct (map f (sort_key f ys))" using dy by (simp add: distinct_map)
    show "set (map f (sort_key f xs)) = set (map f (sort_key f ys))" using s by simp
  qed
  then show ?thesis
    using inj s by (auto intro: map_inj_on [of f] simp: inj_on_def)
qed

lemma select_preview_file_missing_key:
  assumes "\<exists>f \<in> set fs. map_of f ''key'' = None"
  shows "select_preview_file P (Some fs) d = Inr None"
  using assms by (auto simp: select_preview_file_def sorted_by_key_def)

lemma sort_field_distinct:
  assumes "\<forall>f \<in> set fs. map_of f ''key'' \<noteq> None"
  shows "List.map_filter (\<lambda>f. map_of f ''key'') fs = map sort_field fs"
  using assms by (induction fs) (auto simp: map_filter_simps sort_field_def)

lemma find_SomeD: "find Q xs = Some g \<Longrightarrow> g \<in> set xs \<and> Q g"
  by (induction xs) (auto split: if_splits)

section \<open>The selector: claims\<close>

text \<open>
  C1 (as the code has it). When some descriptor of the list lacks the \<^verbatim>\<open>key\<close> field,
  the sort raises KeyError before the scan starts; the exception is caught, nothing
  propagates, and the selector returns none, whatever the other descriptors are.
\<close>

theorem select_preview_file_malformed_none:
  assumes "f \<in> set fs" and "map_of f ''key'' = None"
  shows "select_preview_file P (Some fs) d = Inr None"
  using assms select_preview_file_missing_key [of fs P d] by blast

theorem select_preview_file_malformed_none_witness:
  "[(''size'', ''10'')] \<in> set [[(''key'', ''a.png'')], [(''size'', ''10'')]]
   \<and> map_of [(''size'', ''10'')] ''key'' = None
   \<and> select_preview_file png_only (Some [[(''key'', ''a.png'')], [(''size'', ''10'')]])
         (Some ''a.png'') = Inr None"
  using select_preview_file_malformed_none
    [of "[(''size'', ''10'')]" "[[(''key'', ''a.png'')], [(''size'', ''10'')]]"
        png_only "Some ''a.png''"]
  by simp

text \<open>
  C1 as stated fails: with a previewable \<^verbatim>\<open>a.png\<close> and one descriptor that has no
  \<^verbatim>\<open>key\<close>, the selector returns none instead of skipping the malformed entry and
  selecting \<^verbatim>\<open>a.png\<close>.
\<close>

theorem select_preview_file_skip_counterexample:
  "png_only (file_type_of ''a.png'')
   \<and> select_preview_file png_only (Some [[(''key'', ''a.png'')], [(''size'', ''10'')]]) None
       = Inr None
   \<and> select_preview_file png_only (Some [[(''key'', ''a.png'')], [(''size'', ''10'')]]) None
       \<noteq> Inr (Some [(''key'', ''a.png'')])"
proof -
  have "png_only (file_type_of ''a.png'')" by code_simp
  moreover have "select_preview_file png_only
      (Some [[(''key'', ''a.png'')], [(''size'', ''10'')]]) None = Inr None"
    by (simp add: select_preview_file_def sorted_by_key_def)
  ultimately show ?thesis by simp
qed

text \<open>
  C4. When every descriptor has a \<^verbatim>\<open>key\<close> and \<^verbatim>\<open>default_preview\<close> is the key of a
  previewable descriptor of the list, the selector returns a descriptor of the list whose
  key is \<^verbatim>\<open>default_preview\<close>: exactly that descriptor when no other has the same key,
  and whatever previewable descriptors sort before it.
\<close>

theorem select_preview_file_default_wins:
  assumes "\<forall>h \<in> set fs. map_of h ''key'' \<noteq> None"
    and "f \<in> set fs" and "map_of f ''key'' = Some k" and "P (file_type_of k)"
  shows "(\<exists>g \<in> set fs. map_of g ''key'' = Some k
            \<and> select_preview_file P (Some fs) (Some k) = Inr (Some g))
         \<and> ((\<forall>g \<in> set fs. map_of g ''key'' = Some k \<longrightarrow> g = f)
            \<longrightarrow> select_preview_file P (Some fs) (Some k) = Inr (Some f))"
proof -
  let ?sorted = "sort_key sort_field fs"
  have keys: "\<forall>h \<in> set ?sorted. map_of h ''key'' \<noteq> None" using assms(1) by simp
  have named: "\<exists>h \<in> set ?sorted. map_of h ''key'' = Some k" using assms(2,3) by auto
  obtain g where g: "g \<in> set ?sorted" "fst (scan_files P (Some k) ?sorted None) = Some g"
    "map_of g ''key'' = Some k"
    using scan_files_finds_default [of "?sorted" k P None] keys named assms(4) by blast
  have sel: "select_preview_file P (Some fs) (Some k) = Inr (Some g)"
    using select_preview_file_keys [OF assms(1), of P "Some k"] g(2) by simp
  have "g \<in> set fs" using g(1) by simp
  then show ?thesis using sel g(3) by auto
qed

theorem select_preview_file_default_wins_witness:
  "png_or_txt (file_type_of ''a.txt'') \<and> png_or_txt (file_type_of ''b.png'')
   \<and> ''a.txt'' < ''b.png''
   \<and> select_preview_file png_or_txt (Some [[(''key'', ''b.png'')], [(''key'', ''a.txt'')]])
         (Some ''b.png'') = Inr (Some [(''key'', ''b.png'')])"
proof -
  have p: "png_or_txt (file_type_of ''b.png'')" by code_simp
  have q: "png_or_txt (file_type_of ''a.txt'')" by code_simp
  have r: "''a.txt'' < ''b.png''" by code_simp
  show ?thesis
    using select_preview_file_default_wins
      [of "[[(''key'', ''b.png'')], [(''key'', ''a.txt'')]]" "[(''key'', ''b.png'')]"
          "''b.png''" png_or_txt] p q r
    by simp
qed

text \<open>
  C5 (as the code has it). With no \<^verbatim>\<open>default_preview\<close> and every descriptor having a
  \<^verbatim>\<open>key\<close>, the selector returns the first previewable descriptor of the list sorted by
  key: a previewable descriptor of the list whose key is smallest among the previewable
  ones; it returns none exactly when no descriptor is previewable, and for the empty list
  and for no list. A descriptor is previewable when the predicate accepts the lowercased
  extension that \<^verbatim>\<open>os.path.splitext\<close> gives, without its dot. For a key that contains no
  \<^verbatim>\<open>/\<close> and does not begin with a dot, that is the lowercased substring after the last
  dot, empty when there is no dot.
\<close>

theorem select_preview_file_first_match:
  assumes "\<forall>h \<in> set fs. map_of h ''key'' \<noteq> None"
  shows "select_preview_file P (Some fs) None
           = Inr (find (\<lambda>h. P (file_type_of (sort_field h))) (sort_key sort_field fs))
         \<and> (\<forall>g. select_preview_file P (Some fs) None = Inr (Some g) \<longrightarrow>
                g \<in> set fs \<and> P (file_type_of (sort_field g))
                \<and> (\<forall>h \<in> set fs. P (file_type_of (sort_field h))
                      \<longrightarrow> sort_field g \<le> sort_field h))
         \<and> (select_preview_file P (Some fs) None = Inr None
              \<longleftrightarrow> \<not> (\<exists>h \<in> set fs. P (file_type_of (sort_field h))))
         \<and> select_preview_file P None None = Inr None
         \<and> select_preview_file P (Some []) None = Inr None
         \<and> (\<forall>k. CHR ''/'' \<notin> set k \<and> (k = [] \<or> hd k \<noteq> CHR ''.'')
                \<longrightarrow> file_type_of k = spec_file_type k)"
proof -
  let ?Q = "\<lambda>h. P (file_type_of (sort_field h))"
  let ?sorted = "sort_key sort_field fs"
  have keys: "\<forall>h \<in> set ?sorted. map_of h ''key'' \<noteq> None" using assms by simp
  have scan: "fst (scan_files P None ?sorted None) = find ?Q ?sorted"
    using scan_files_no_default [OF keys, of P None] by simp
  have eq: "select_preview_file P (Some fs) None = Inr (find ?Q ?sorted)"
    using select_preview_file_keys [OF assms, of P None] scan by simp
  have least: "g \<in> set fs \<and> ?Q g \<and> (\<forall>h \<in> set fs. ?Q h \<longrightarrow> sort_field g \<le> sort_field h)"
    if found: "find ?Q ?sorted = Some g" for g
  proof -
    have "g \<in> set ?sorted \<and> ?Q g" using found by (rule find_SomeD)
    then have m: "g \<in> set fs \<and> ?Q g" by simp
    have "sort_field g \<le> sort_field h" if "h \<in> set fs" "?Q h" for h
    proof (rule find_sorted_least [of sort_field ?sorted ?Q g h])
      show "sorted (map sort_field ?sorted)" by simp
      show "find ?Q ?sorted = Some g" by (rule found)
      show "h \<in> set ?sorted" using that(1) by simp
      show "?Q h" by (rule that(2))
    qed
    then show ?thesis using m by blast
  qed
  have c2: "\<forall>g. select_preview_file P (Some fs) None = Inr (Some g) \<longrightarrow>
                g \<in> set fs \<and> P (file_type_of (sort_field g))
                \<and> (\<forall>h \<in> set fs. P (file_type_of (sort_field h))
                      \<longrightarrow> sort_field g \<le> sort_field h)"
    unfolding eq using least by simp
  have "find ?Q ?sorted = None \<longleftrightarrow> \<not> (\<exists>h \<in> set fs. ?Q h)"
    by (auto simp: find_None_iff)
  then have c3: "select_preview_file P (Some fs) None = Inr None
              \<longleftrightarrow> \<not> (\<exists>h \<in> set fs. P (file_type_of (sort_field h)))"
    unfolding eq by simp
  have c4: "select_preview_file P None None = Inr None"
    by (simp add: select_preview_file_def sorted_by_key_def)
  have c5: "select_preview_file P (Some []) None = Inr None"
    by (simp add: select_preview_file_def sorted_by_key_def)
  have c6: "\<forall>k. CHR ''/'' \<notin> set k \<and> (k = [] \<or> hd k \<noteq> CHR ''.'')
                \<longrightarrow> file_type_of k = spec_file_type k"
    using file_type_of_plain by blast
  from eq c2 c3 c4 c5 c6 show ?thesis by (intro conjI)
qed

theorem select_preview_file_first_match_witness:
  "select_preview_file png_or_txt (Some [[(''key'', ''c.png'')], [(''key'', ''a.txt'')]]) None
       = Inr (Some [(''key'', ''a.txt'')])"
proof -
  have k: "\<forall>h \<in> set [[(''key'', ''c.png'')], [(''key'', ''a.txt'')]]. map_of h ''key'' \<noteq> None"
    by simp
  have f: "find (\<lambda>h. png_or_txt (file_type_of (sort_field h)))
          (sort_key sort_field [[(''key'', ''c.png'')], [(''key'', ''a.txt'')]])
        = Some [(''key'', ''a.txt'')]"
    by code_simp
  have "select_preview_file png_or_txt (Some [[(''key'', ''c.png'')], [(''key'', ''a.txt'')]]) None
       = Inr (find (\<lambda>h. png_or_txt (file_type_of (sort_field h)))
          (sort_key sort_field [[(''key'', ''c.png'')], [(''key'', ''a.txt'')]]))"
    using select_preview_file_first_match [OF k, of png_or_txt] by (rule conjunct1)
  then show ?thesis using f by (simp only: simp_thms)
qed

text \<open>
  C5 as stated fails: the key \<^verbatim>\<open>.png\<close> has the extension \<^verbatim>\<open>png\<close> after its last dot,
  so the descriptor is previewable as the claim defines it, but \<^verbatim>\<open>os.path.splitext\<close>
  takes a leading dot as part of the name, the file type is empty and the selector
  returns none.
\<close>

theorem select_preview_file_extension_counterexample:
  "png_only (spec_file_type ''.png'')
   \<and> select_preview_file png_only (Some [[(''key'', ''.png'')]]) None = Inr None"
  by code_simp

text \<open>
  C6. For two lists with the same descriptors in any order, the keys that are present
  being pairwise different, and the same \<^verbatim>\<open>default_preview\<close>, the selector returns the
  same result.
\<close>

theorem select_preview_file_permutation:
  assumes "mset fs = mset fs'"
    and "distinct (List.map_filter (\<lambda>f. map_of f ''key'') fs)"
  shows "select_preview_file P (Some fs) d = select_preview_file P (Some fs') d"
proof (cases "\<forall>f \<in> set fs. map_of f ''key'' \<noteq> None")
  case True
  have s: "set fs = set fs'" using assms(1) by (rule mset_eq_setD)
  have True': "\<forall>f \<in> set fs'. map_of f ''key'' \<noteq> None" using True s by simp
  have "distinct (map sort_field fs)" using assms(2) sort_field_distinct [OF True] by simp
  then have "sort_key sort_field fs = sort_key sort_field fs'"
    using assms(1) by (rule sort_key_permutation [rotated])
  then show ?thesis
    using select_preview_file_keys [OF True, of P d] select_preview_file_keys [OF True', of P d]
    by simp
next
  case False
  have s: "set fs = set fs'" using assms(1) by (rule mset_eq_setD)
  have a: "\<exists>f \<in> set fs. map_of f ''key'' = None" using False by simp
  then have b: "\<exists>f \<in> set fs'. map_of f ''key'' = None" using s by simp
  show ?thesis
    using select_preview_file_missing_key [OF a, of P d]
      select_preview_file_missing_key [OF b, of P d] by simp
qed

theorem select_preview_file_permutation_witness:
  "mset [[(''key'', ''b.png'')], [(''key'', ''a.txt'')]]
     = mset [[(''key'', ''a.txt'')], [(''key'', ''b.png'')]]
   \<and> distinct (List.map_filter (\<lambda>f. map_of f ''key'')
        [[(''key'', ''b.png'')], [(''key'', ''a.txt'')]])
   \<and> select_preview_file png_or_txt (Some [[(''key'', ''b.png'')], [(''key'', ''a.txt'')]]) None
       = select_preview_file png_or_txt (Some [[(''key'', ''a.txt'')], [(''key'', ''b.png'')]]) None"
proof -
  have m: "mset [[(''key'', ''b.png'')], [(''key'', ''a.txt'')]]
     = mset [[(''key'', ''a.txt'')], [(''key'', ''b.png'')]]"
    by (simp add: add_mset_commute)
  have d: "distinct (List.map_filter (\<lambda>f. map_of f ''key'')
        [[(''key'', ''b.png'')], [(''key'', ''a.txt'')]])"
    by (simp add: map_filter_simps)
  show ?thesis
    using select_preview_file_permutation [OF m d, of png_or_txt None] m d by simp
qed

section \<open>The normalizers: claims\<close>

lemma preview_compatible_loop_total:
  "set ks \<subseteq> fst ` set fs \<Longrightarrow>
   preview_compatible_loop dumps fs ks acc =
     Inr (acc @ map (\<lambda>k. dumps \<lparr>obj = object_version (the (map_of fs k)), data = []\<rparr>) ks)"
proof (induction ks arbitrary: acc)
  case Nil
  then show ?case by simp
next
  case (Cons k ks)
  then have "k \<in> fst ` set fs" by simp
  then obtain rf where rf: "map_of fs k = Some rf"
    by (metis map_of_eq_None_iff not_Some_eq)
  have "set ks \<subseteq> fst ` set fs" using Cons.prems by simp
  then show ?case using Cons.IH rf by simp
qed

lemma map_of_nth_distinct:
  "distinct (map fst fs) \<Longrightarrow> i < length fs \<Longrightarrow> map_of fs (fst (fs ! i)) = Some (snd (fs ! i))"
  by (simp add: map_of_eq_Some_iff)

lemma metadata_or_empty_eq:
  "metadata_or_empty md = (case md of None \<Rightarrow> [] | Some m \<Rightarrow> m)"
  by (simp add: metadata_or_empty_def split: option.splits)

text \<open>
  C7 (as the code has it). For a file collection (a dictionary, so its keys are pairwise
  different), both transforms produce one output entry for each input entry, in order.
  An entry of \<^verbatim>\<open>to_previewer_files\<close> has the object version of its source entry and, as
  data, the metadata of the source entry, or the empty mapping when the metadata is
  absent. An entry of \<^verbatim>\<open>make_files_preview_compatible\<close> is the dump of a file object that
  has the object version of its source entry and the empty mapping as data, whatever the
  metadata of the source entry.
\<close>

theorem normalizers_one_entry_each:
  assumes "distinct (map fst fs)"
  shows "(\<exists>out. make_files_preview_compatible dumps fs = Inr out
            \<and> length out = length fs
            \<and> (\<forall>i < length fs.
                  out ! i = dumps \<lparr>obj = object_version (snd (fs ! i)), data = []\<rparr>))
         \<and> length (to_previewer_files \<lparr>files = fs\<rparr>) = length fs
         \<and> (\<forall>i < length fs.
               to_previewer_files \<lparr>files = fs\<rparr> ! i =
                 \<lparr>obj = object_version (snd (fs ! i)),
                  data = (case metadata (snd (fs ! i)) of None \<Rightarrow> [] | Some m \<Rightarrow> m)\<rparr>)"
proof -
  let ?out = "map (\<lambda>k. dumps \<lparr>obj = object_version (the (map_of fs k)), data = []\<rparr>) (map fst fs)"
  have "make_files_preview_compatible dumps fs = Inr ([] @ ?out)"
    unfolding make_files_preview_compatible_def
    by (rule preview_compatible_loop_total) simp
  then have a: "make_files_preview_compatible dumps fs = Inr ?out" by simp
  have b: "length ?out = length fs" by simp
  have c: "\<forall>i < length fs. ?out ! i = dumps \<lparr>obj = object_version (snd (fs ! i)), data = []\<rparr>"
    using assms by (simp add: map_of_nth_distinct)
  have d: "length (to_previewer_files \<lparr>files = fs\<rparr>) = length fs"
    by (simp add: to_previewer_files_def)
  have e: "\<forall>i < length fs.
               to_previewer_files \<lparr>files = fs\<rparr> ! i =
                 \<lparr>obj = object_version (snd (fs ! i)),
                  data = (case metadata (snd (fs ! i)) of None \<Rightarrow> [] | Some m \<Rightarrow> m)\<rparr>"
    by (simp add: to_previewer_files_def metadata_or_empty_eq)
  from a b c have "\<exists>out. make_files_preview_compatible dumps fs = Inr out
            \<and> length out = length fs
            \<and> (\<forall>i < length fs.
                  out ! i = dumps \<lparr>obj = object_version (snd (fs ! i)), data = []\<rparr>)"
    by blast
  with d e show ?thesis by blast
qed

theorem normalizers_one_entry_each_witness:
  "distinct (map fst sample_files)
   \<and> make_files_preview_compatible data sample_files = Inr [[]]
   \<and> to_previewer_files \<lparr>files = sample_files\<rparr>
       = [\<lparr>obj = sample_object, data = [(''type'', ''image'')]\<rparr>]"
proof -
  have d: "distinct (map fst sample_files)" by (simp add: sample_files_def)
  obtain out where o: "make_files_preview_compatible data sample_files = Inr out"
    "length out = length sample_files"
    "\<forall>i < length sample_files.
        out ! i = data \<lparr>obj = object_version (snd (sample_files ! i)), data = []\<rparr>"
    using normalizers_one_entry_each [OF d, of data] by blast
  have t: "length (to_previewer_files \<lparr>files = sample_files\<rparr>) = length sample_files"
    "\<forall>i < length sample_files.
               to_previewer_files \<lparr>files = sample_files\<rparr> ! i =
                 \<lparr>obj = object_version (snd (sample_files ! i)),
                  data = (case metadata (snd (sample_files ! i)) of None \<Rightarrow> [] | Some m \<Rightarrow> m)\<rparr>"
    using normalizers_one_entry_each [OF d, of data] by blast+
  have "out = [[]]"
    using o(2,3) by (cases out) (simp_all add: sample_files_def)
  moreover have "to_previewer_files \<lparr>files = sample_files\<rparr>
       = [\<lparr>obj = sample_object, data = [(''type'', ''image'')]\<rparr>]"
    using t by (cases "to_previewer_files \<lparr>files = sample_files\<rparr>") (simp_all add: sample_files_def)
  ultimately show ?thesis using d o(1) by simp
qed

text \<open>
  C7 as stated fails for \<^verbatim>\<open>make_files_preview_compatible\<close>: for an entry whose metadata
  is \<^verbatim>\<open>{'type': 'image'}\<close>, the data of its output entry (read off by a dump that returns
  the data of the file object) is the empty mapping, not the metadata.
\<close>

theorem make_files_preview_compatible_metadata_counterexample:
  "metadata (snd (sample_files ! 0)) = Some [(''type'', ''image'')]
   \<and> make_files_preview_compatible data sample_files = Inr [[]]
   \<and> make_files_preview_compatible data sample_files \<noteq> Inr [[(''type'', ''image'')]]"
  by (simp add: sample_files_def make_files_preview_compatible_def)

lemma file_download_ui_resolved:
  assumes "(case rff of None \<Rightarrow> dflt | Some f \<Rightarrow> f) pid record (map_of kwargs ''filename'')
             = Some fileobj"
  shows "file_download_ui dflt send request_args pid record rff kwargs =
           ([RecordFileFactory (map_of kwargs ''filename''),
             SendObject \<lparr>send_bucket = bucket (obj fileobj),
                         send_obj = obj fileobj,
                         expected_chksum = map_of (data fileobj) ''checksum'',
                         logger_data = [(''bucket_id'', bucket_id (obj fileobj)),
                                        (''pid_type'', pid_type pid),
                                        (''pid_value'', pid_value pid)],
                         as_attachment = (''download'' \<in> set (map fst request_args))\<rparr>],
            Inr (send \<lparr>send_bucket = bucket (obj fileobj),
                         send_obj = obj fileobj,
                         expected_chksum = map_of (data fileobj) ''checksum'',
                         logger_data = [(''bucket_id'', bucket_id (obj fileobj)),
                                        (''pid_type'', pid_type pid),
                                        (''pid_value'', pid_value pid)],
                         as_attachment = (''download'' \<in> set (map fst request_args))\<rparr>))"
  using assms by (simp add: file_download_ui_def Let_def)

section \<open>The download view: claims\<close>

text \<open>
  C2 (the code breaks it). The view calls the record file factory and then
  \<^verbatim>\<open>send_object\<close>; the permission check between them is commented out. For a record
  whose policy denies \<^verbatim>\<open>read_files\<close>, a request for the existing file \<^verbatim>\<open>a.png\<close> is
  answered 200 with the body of the file, and no permission check is among the calls.
\<close>

theorem file_download_ui_streams_without_permission:
  "\<not> can_list_files deny_all ()
   \<and> file_download_ui sample_factory spec_send_object [] sample_pid () None
       [(''filename'', ''a.png'')]
     = ([RecordFileFactory (Some ''a.png''),
         SendObject \<lparr>send_bucket = ''b1'', send_obj = sample_object,
                     expected_chksum = Some ''md5:aa'',
                     logger_data = [(''bucket_id'', ''b1''), (''pid_type'', ''recid''),
                                    (''pid_value'', ''12345'')],
                     as_attachment = False\<rparr>],
        Inr (Ok200 Inline sample_object))
   \<and> CheckObjectPermission sample_object
       \<notin> set (fst (file_download_ui sample_factory spec_send_object [] sample_pid () None
                      [(''filename'', ''a.png'')]))"
  by (simp add: can_list_files_def deny_all_def file_download_ui_def sample_factory_def
      sample_fileobj_def sample_object_def sample_pid_def spec_send_object_def Let_def)

text \<open>
  C3. When the factory resolves the file, the view calls \<^verbatim>\<open>send_object\<close> once, for the
  stored object of the resolved entry, and the expected checksum it passes is exactly the
  checksum recorded in the entry. With the streaming responder of the specification, a
  stored object whose checksum differs from the recorded one is answered with an
  integrity fault and not with 200.
\<close>

theorem file_download_ui_expected_checksum:
  assumes "(case rff of None \<Rightarrow> dflt | Some f \<Rightarrow> f) pid record (map_of kwargs ''filename'')
             = Some fileobj"
  shows "(\<exists>args. file_download_ui dflt send request_args pid record rff kwargs
                   = ([RecordFileFactory (map_of kwargs ''filename''), SendObject args],
                      Inr (send args))
                 \<and> send_obj args = obj fileobj
                 \<and> expected_chksum args = map_of (data fileobj) ''checksum'')
         \<and> (map_of (data fileobj) ''checksum'' \<noteq> Some (file_checksum (obj fileobj))
              \<longrightarrow> snd (file_download_ui dflt spec_send_object request_args pid record rff kwargs)
                    = Inr IntegrityFault)"
proof -
  have a: "\<exists>args. file_download_ui dflt send request_args pid record rff kwargs
                   = ([RecordFileFactory (map_of kwargs ''filename''), SendObject args],
                      Inr (send args))
                 \<and> send_obj args = obj fileobj
                 \<and> expected_chksum args = map_of (data fileobj) ''checksum''"
    using file_download_ui_resolved [OF assms, of send request_args] by simp
  have b: "snd (file_download_ui dflt spec_send_object request_args pid record rff kwargs)
             = Inr IntegrityFault"
    if "map_of (data fileobj) ''checksum'' \<noteq> Some (file_checksum (obj fileobj))"
    using file_download_ui_resolved [OF assms, of spec_send_object request_args] that
    by (simp add: spec_send_object_def)
  from a b show ?thesis by blast
qed

theorem file_download_ui_expected_checksum_witness:
  "corrupt_factory sample_pid () (Some ''a.png'') = Some corrupt_fileobj
   \<and> map_of (data corrupt_fileobj) ''checksum'' \<noteq> Some (file_checksum (obj corrupt_fileobj))
   \<and> snd (file_download_ui sample_factory spec_send_object [] sample_pid ()
            (Some corrupt_factory) [(''filename'', ''a.png'')]) = Inr IntegrityFault"
proof -
  have r: "(case Some corrupt_factory of None \<Rightarrow> sample_factory | Some f \<Rightarrow> f) sample_pid ()
             (map_of [(''filename'', ''a.png'')] ''filename'') = Some corrupt_fileobj"
    by (simp add: corrupt_factory_def)
  have m: "map_of (data corrupt_fileobj) ''checksum''
             \<noteq> Some (file_checksum (obj corrupt_fileobj))"
    by (simp add: corrupt_fileobj_def sample_object_def)
  show ?thesis
    using file_download_ui_expected_checksum [OF r, of id "[]"] r m by simp
qed

text \<open>
  C8. When the factory in use returns no file for the request (for instance for a
  filename the record does not have), the view fails with the HTTP exception 404; the
  factory is the only collaborator it has called, so \<^verbatim>\<open>send_object\<close> is never reached and
  nothing of a file body is written.
\<close>

theorem file_download_ui_not_found:
  assumes "(case rff of None \<Rightarrow> dflt | Some f \<Rightarrow> f) pid record (map_of kwargs ''filename'')
             = None"
  shows "file_download_ui dflt send request_args pid record rff kwargs
           = ([RecordFileFactory (map_of kwargs ''filename'')], Inl (HTTPException 404))
         \<and> (\<forall>args. SendObject args
                \<notin> set (fst (file_download_ui dflt send request_args pid record rff kwargs)))"
  using assms by (simp add: file_download_ui_def)

theorem file_download_ui_not_found_witness:
  "sample_factory sample_pid () (Some ''missing.pdf'') = None
   \<and> file_download_ui sample_factory spec_send_object [] sample_pid () None
       [(''filename'', ''missing.pdf'')]
     = ([RecordFileFactory (Some ''missing.pdf'')], Inl (HTTPException 404))"
proof -
  have r: "(case None of None \<Rightarrow> sample_factory | Some f \<Rightarrow> f) sample_pid ()
             (map_of [(''filename'', ''missing.pdf'')] ''filename'') = None"
    by (simp add: sample_factory_def)
  show ?thesis
    using file_download_ui_not_found [OF r, of spec_send_object "[]"] r by simp
qed

text \<open>
  C9. For a resolved file, the view calls \<^verbatim>\<open>send_object\<close> for that file with
  \<^verbatim>\<open>as_attachment\<close> true exactly when \<^verbatim>\<open>download\<close> is among the query arguments of the
  request, whatever its value, and false when it is absent.
\<close>

theorem file_download_ui_disposition:
  assumes "(case rff of None \<Rightarrow> dflt | Some f \<Rightarrow> f) pid record (map_of kwargs ''filename'')
             = Some fileobj"
  shows "\<exists>args. file_download_ui dflt send request_args pid record rff kwargs
                  = ([RecordFileFactory (map_of kwargs ''filename''), SendObject args],
                     Inr (send args))
               \<and> send_obj args = obj fileobj
               \<and> as_attachment args = (\<exists>v. (''download'', v) \<in> set request_args)"
proof -
  have "(''download'' \<in> set (map fst request_args)) = (\<exists>v. (''download'', v) \<in> set request_args)"
    by force
  then show ?thesis
    using file_download_ui_resolved [OF assms, of send request_args] by simp
qed

theorem file_download_ui_disposition_witness:
  "sample_factory sample_pid () (Some ''a.png'') = Some sample_fileobj
   \<and> (\<exists>args. fst (file_download_ui sample_factory spec_send_object [(''download'', [])]
                     sample_pid () None [(''filename'', ''a.png'')])
                = [RecordFileFactory (Some ''a.png''), SendObject args]
              \<and> as_attachment args)
   \<and> (\<exists>args. fst (file_download_ui sample_factory spec_send_object []
                     sample_pid () None [(''filename'', ''a.png'')])
                = [RecordFileFactory (Some ''a.png''), SendObject args]
              \<and> \<not> as_attachment args)"
proof -
  have r: "(case None of None \<Rightarrow> sample_factory | Some f \<Rightarrow> f) sample_pid ()
             (map_of [(''filename'', ''a.png'')] ''filename'') = Some sample_fileobj"
    by (simp add: sample_factory_def)
  have r': "sample_factory sample_pid () (Some ''a.png'') = Some sample_fileobj"
    by (simp add: sample_factory_def)
  have a: "\<exists>args. fst (file_download_ui sample_factory spec_send_object [(''download'', [])]
                     sample_pid () None [(''filename'', ''a.png'')])
                = [RecordFileFactory (Some ''a.png''), SendObject args]
              \<and> as_attachment args"
    using file_download_ui_disposition [OF r, of spec_send_object "[(''download'', [])]"]
    by auto
  have b: "\<exists>args. fst (file_download_ui sample_factory spec_send_object []
                     sample_pid () None [(''filename'', ''a.png'')])
                = [RecordFileFactory (Some ''a.png''), SendObject args]
              \<and> \<not> as_attachment args"
    using file_download_ui_disposition [OF r, of spec_send_object "[]"]
    by auto
  from r' a b show ?thesis by blast
qed

section \<open>The identifier link: claims\<close>


















end
